theory Spec2Isabelle
  imports Main "HOL-Library.Sublist"
begin

section \<open>Strings\<close>

text \<open>
  JavaScript strings are modelled as \<^typ>\<open>string\<close> (the UTF-8 bytes of the text).
  \<open>String.prototype.toLowerCase\<close> is modelled on the ASCII letters \<open>A\<close> .. \<open>Z\<close>
  (codes 65 .. 90); every other byte is kept.  \<open>String.prototype.includes\<close> is the
  search for a contiguous occurrence, tried at every start position from the left.
\<close>

definition lower_char :: "char \<Rightarrow> char" where
  "lower_char c =
     (let n = (of_char c :: nat) in if 65 \<le> n \<and> n \<le> 90 then char_of (n + 32) else c)"

definition toLowerCase :: "string \<Rightarrow> string" where
  "toLowerCase s = map lower_char s"

fun str_includes :: "string \<Rightarrow> string \<Rightarrow> bool" where
  "str_includes [] t = (t = [])"
| "str_includes (c # cs) t = (prefix t (c # cs) \<or> str_includes cs t)"


section \<open>api.js\<close>

text \<open>
  The module owns one axios instance.  Its default \<open>Authorization\<close> header is
  process-wide state; \<open>setAuthToken\<close> writes it and every request reads it when the
  request is issued.  The calls made to the module are recorded, most recent first.
\<close>

datatype api_call =
    SetAuthToken "string option"
  | GetStats "string option"

record violation_entry =
  vtype :: string
  tracker_id :: int
  timestamp :: string

record stats_snapshot =
  in_count :: int
  out_count :: int
  total_violations :: int
  recent_violations :: "violation_entry list"
  scene_type :: "string option"


section \<open>App: session, role, navigation and polling\<close>

datatype role = Admin | Operator

datatype view = Live | Archive | Settings

record principal =
  email :: "string option"

record nav_item =
  nav_id :: view
  roles :: "role list"

record app_state =
  user :: "principal option"
  role :: role
  loading :: bool
  activeTab :: view
  stats :: stats_snapshot
  auth_header :: "string option"
  interval :: "nat option"
  exchanges :: "principal list"
  fetches :: nat
  api_log :: "api_call list"
  console :: "string list"

text \<open>
  Besides the five \<open>useState\<close> cells of \<open>App\<close> that the controller uses, the state holds
  what the environment keeps for it: the default header of the axios instance
  (\<open>auth_header\<close>), the polling timer with its period in milliseconds (\<open>interval\<close>, \<open>None\<close>
  when no timer is set), the principals whose \<open>getIdToken\<close> call has not settled yet
  (\<open>exchanges\<close>), the number of \<open>fetchStats\<close> promises that have not settled yet
  (\<open>fetches\<close>), the calls made to api.js and the lines written by \<open>console.error\<close>.
\<close>

definition initial_stats :: stats_snapshot where
  "initial_stats =
     \<lparr>in_count = 0, out_count = 0, total_violations = 0, recent_violations = [],
      scene_type = None\<rparr>"

definition app_init :: app_state where
  "app_init =
     \<lparr>user = None, role = Operator, loading = True, activeTab = Live,
      stats = initial_stats, auth_header = None, interval = None, exchanges = [],
      fetches = 0, api_log = [], console = []\<rparr>"

text \<open>
  \<open>setAuthToken\<close> tests its argument for truthiness: \<open>null\<close> and the empty string delete
  the header, any other string installs \<open>Bearer\<close> followed by the token.
\<close>

definition bearer_header :: "string option \<Rightarrow> string option" where
  "bearer_header token =
     (case token of
        None \<Rightarrow> None
      | Some t \<Rightarrow> if t = [] then None else Some (''Bearer '' @ t))"

definition setAuthToken :: "string option \<Rightarrow> app_state \<Rightarrow> app_state" where
  "setAuthToken token s =
     s\<lparr>auth_header := bearer_header token, api_log := SetAuthToken token # api_log s\<rparr>"

definition fetchStats :: "app_state \<Rightarrow> app_state" where
  "fetchStats s =
     s\<lparr>api_log := GetStats (auth_header s) # api_log s, fetches := Suc (fetches s)\<rparr>"

text \<open>
  \<open>setUser\<close> writes the state cell and nothing else.  The polling effect has the
  dependency list \<open>[user]\<close>; React runs it later, in a callback of its own after the
  commit: the cleanup of the previous run clears the timer, and the body sets a new one
  of period 1000 when a user is present.  Until then the timer is as the previous run of
  the effect left it, so a timer callback can run between a handler and the effect.
\<close>

definition setUser :: "principal option \<Rightarrow> app_state \<Rightarrow> app_state" where
  "setUser u s = s\<lparr>user := u\<rparr>"

definition polling_effect :: "app_state \<Rightarrow> app_state" where
  "polling_effect s = s\<lparr>interval := (if user s = None then None else Some 1000)\<rparr>"

definition userRole :: "string option \<Rightarrow> role" where
  "userRole em =
     (case em of
        None \<Rightarrow> Operator
      | Some e \<Rightarrow> if str_includes (toLowerCase e) ''admin'' then Admin else Operator)"

definition remove_nth :: "nat \<Rightarrow> 'a list \<Rightarrow> 'a list" where
  "remove_nth n xs = take n xs @ drop (Suc n) xs"

text \<open>
  The callback of \<open>onAuthStateChanged\<close>.  With a principal it suspends at
  \<open>await currentUser.getIdToken()\<close>; the rest of the branch runs when the exchange
  settles (\<open>token_resolved\<close>), and nothing of it runs when the exchange fails
  (\<open>token_rejected\<close>: the rejection leaves the handler).
\<close>

definition auth_changed :: "principal option \<Rightarrow> app_state \<Rightarrow> app_state" where
  "auth_changed currentUser s =
     (case currentUser of
        Some p \<Rightarrow> s\<lparr>exchanges := exchanges s @ [p]\<rparr>
      | None \<Rightarrow> (setUser None (setAuthToken None s))\<lparr>role := Operator, loading := False\<rparr>)"

definition token_resolved :: "nat \<Rightarrow> string \<Rightarrow> app_state \<Rightarrow> app_state" where
  "token_resolved n token s =
     (if n < length (exchanges s) then
        (setUser (Some (exchanges s ! n))
           (setAuthToken (Some token) (s\<lparr>exchanges := remove_nth n (exchanges s)\<rparr>)))
          \<lparr>role := userRole (email (exchanges s ! n)), loading := False\<rparr>
      else s)"

definition token_rejected :: "nat \<Rightarrow> app_state \<Rightarrow> app_state" where
  "token_rejected n s =
     (if n < length (exchanges s) then s\<lparr>exchanges := remove_nth n (exchanges s)\<rparr> else s)"

text \<open>The callback of \<open>setInterval\<close> up to its \<open>await\<close>, and its two continuations.\<close>

definition tick :: "app_state \<Rightarrow> app_state" where
  "tick s = (if interval s = None then s else fetchStats s)"

definition fetch_resolved :: "stats_snapshot \<Rightarrow> app_state \<Rightarrow> app_state" where
  "fetch_resolved data s =
     (if fetches s = 0 then s else s\<lparr>stats := data, fetches := fetches s - 1\<rparr>)"

definition fetch_rejected :: "app_state \<Rightarrow> app_state" where
  "fetch_rejected s =
     (if fetches s = 0 then s
      else s\<lparr>console := ''Failed to fetch stats'' # console s, fetches := fetches s - 1\<rparr>)"

definition navItems :: "nav_item list" where
  "navItems =
     [\<lparr>nav_id = Live, roles = [Admin, Operator]\<rparr>,
      \<lparr>nav_id = Archive, roles = [Admin, Operator]\<rparr>,
      \<lparr>nav_id = Settings, roles = [Admin]\<rparr>]"

definition filteredNav :: "role \<Rightarrow> nav_item list" where
  "filteredNav r = filter (\<lambda>item. r \<in> set (roles item)) navItems"

definition visible_views :: "role \<Rightarrow> view list" where
  "visible_views r = map nav_id (filteredNav r)"

text \<open>
  What \<open>App\<close> returns: the spinner while loading, the login page without a user, and
  otherwise the dashboard, whose view area shows the component selected by \<open>activeTab\<close>
  alone.
\<close>

datatype screen = Spinner | LoginPage | Dashboard view

definition render :: "app_state \<Rightarrow> screen" where
  "render s =
     (if loading s then Spinner
      else if user s = None then LoginPage
      else Dashboard (activeTab s))"

text \<open>
  A navigation button exists for each item of \<open>filteredNav\<close> when the dashboard is
  rendered; its \<open>onClick\<close> is \<open>setActiveTab(item.id)\<close>.
\<close>

definition nav_click :: "view \<Rightarrow> app_state \<Rightarrow> app_state" where
  "nav_click v s =
     (if \<not> loading s \<and> user s \<noteq> None \<and> v \<in> set (visible_views (role s))
      then s\<lparr>activeTab := v\<rparr> else s)"

datatype app_event =
    AuthStateChanged "principal option"
  | TokenResolved nat string
  | TokenRejected nat
  | Tick
  | FetchResolved stats_snapshot
  | FetchRejected
  | NavClick view
  | EffectRun

fun app_step :: "app_state \<Rightarrow> app_event \<Rightarrow> app_state" where
  "app_step s (AuthStateChanged cu) = auth_changed cu s"
| "app_step s (TokenResolved n token) = token_resolved n token s"
| "app_step s (TokenRejected n) = token_rejected n s"
| "app_step s Tick = tick s"
| "app_step s (FetchResolved data) = fetch_resolved data s"
| "app_step s FetchRejected = fetch_rejected s"
| "app_step s (NavClick v) = nav_click v s"
| "app_step s EffectRun = polling_effect s"

definition app_run :: "app_state \<Rightarrow> app_event list \<Rightarrow> app_state" where
  "app_run s evs = foldl app_step s evs"

text \<open>Classes of events, and what the record of api.js calls is checked for.\<close>

fun is_token_resolved :: "app_event \<Rightarrow> bool" where
  "is_token_resolved (TokenResolved n token) = True"
| "is_token_resolved _ = False"

fun is_poll_event :: "app_event \<Rightarrow> bool" where
  "is_poll_event Tick = True"
| "is_poll_event (FetchResolved data) = True"
| "is_poll_event FetchRejected = True"
| "is_poll_event _ = False"

fun is_fetch_failure :: "app_event \<Rightarrow> bool" where
  "is_fetch_failure Tick = True"
| "is_fetch_failure FetchRejected = True"
| "is_fetch_failure _ = False"


fun is_get_stats :: "api_call \<Rightarrow> bool" where
  "is_get_stats (GetStats h) = True"
| "is_get_stats _ = False"

text \<open>
  A record of calls is read most recent first.  \<open>session_token\<close> is the argument of
  the most recent \<open>setAuthToken\<close> call, and \<open>has_install\<close> tells whether some
  \<open>setAuthToken\<close> call with a token is in the record.  \<open>install_before_fetch\<close> holds
  of a record when every stats request in it comes after a \<open>setAuthToken\<close> call with a
  token and carries the header that the most recent \<open>setAuthToken\<close> call before it
  left.
\<close>

fun session_token :: "api_call list \<Rightarrow> string option" where
  "session_token [] = None"
| "session_token (SetAuthToken token # older) = token"
| "session_token (GetStats h # older) = session_token older"

fun has_install :: "api_call list \<Rightarrow> bool" where
  "has_install [] = False"
| "has_install (SetAuthToken token # older) = (token \<noteq> None \<or> has_install older)"
| "has_install (GetStats h # older) = has_install older"

fun install_before_fetch :: "api_call list \<Rightarrow> bool" where
  "install_before_fetch [] = True"
| "install_before_fetch (SetAuthToken token # older) = install_before_fetch older"
| "install_before_fetch (GetStats h # older) =
     (has_install older \<and> h = bearer_header (session_token older) \<and>
      install_before_fetch older)"




section \<open>CamSettings: upload and camera switch\<close>

text \<open>
  \<open>CamSettings\<close> keeps two \<open>useState\<close> cells, \<open>uploadStatus\<close> and \<open>isUploading\<close>.  \<open>App\<close>
  mounts the component only while \<open>activeTab\<close> is the settings view, so leaving the view
  and coming back mounts a new instance with fresh cells (\<open>remount\<close>); \<open>mount\<close> numbers
  the instances.  The environment keeps: whether the browser's file chooser is open,
  the \<open>uploadMedia\<close> promises that have not settled yet (each with the instance that
  started it), the pending \<open>switchCamera\<close> promises, the delays of the pending
  \<open>setTimeout\<close> calls, the requests sent to the backend (most recent first), the
  \<open>alert\<close> texts and the number of page reloads.
\<close>

type_synonym media_file = string

datatype cam_request = PostUpload media_file | PostSwitch string

record preset =
  preset_name :: string
  source :: string

record cam_state =
  uploadStatus :: string
  isUploading :: bool
  mount :: nat
  picker_open :: bool
  uploads :: "nat list"
  switches :: "string list"
  reload_timers :: "nat list"
  requests :: "cam_request list"
  alerts :: "string list"
  reloads :: nat

definition cam_init :: cam_state where
  "cam_init =
     \<lparr>uploadStatus = [], isUploading = False, mount = 0, picker_open = False,
      uploads = [], switches = [], reload_timers = [], requests = [], alerts = [],
      reloads = 0\<rparr>"

definition presets :: "preset list" where
  "presets =
     [\<lparr>preset_name = ''Source 1 (Main Road)'', source = ''road_monitoring.mp4''\<rparr>,
      \<lparr>preset_name = ''Source 2 (Parking)'', source = ''parking2.mp4''\<rparr>,
      \<lparr>preset_name = ''Source 3 (4K Highway)'',
       source = ''2103099-uhd_3840_2160_30fps.mp4''\<rparr>]"

text \<open>
  \<open>window.location.reload()\<close>: the page, its timers and its pending requests are
  discarded, and the next instance of the component starts from the initial cells.
\<close>

definition page_reload :: "cam_state \<Rightarrow> cam_state" where
  "page_reload s =
     \<lparr>uploadStatus = [], isUploading = False, mount = Suc (mount s), picker_open = False,
      uploads = [], switches = [], reload_timers = [], requests = requests s,
      alerts = alerts s, reloads = Suc (reloads s)\<rparr>"

definition remount :: "cam_state \<Rightarrow> cam_state" where
  "remount s =
     (if picker_open s then s
      else s\<lparr>uploadStatus := [], isUploading := False, mount := Suc (mount s)\<rparr>)"

text \<open>
  The upload button carries \<open>disabled={isUploading}\<close>, so its \<open>onClick\<close>
  (\<open>handleButtonClick\<close>, which opens the file chooser of the hidden input) runs only
  while \<open>isUploading\<close> is false.  The input's \<open>onChange\<close> (\<open>onFileUpload\<close>) fires only from
  an open file chooser.
\<close>

definition handleButtonClick :: "cam_state \<Rightarrow> cam_state" where
  "handleButtonClick s = s\<lparr>picker_open := True\<rparr>"

definition button_click :: "cam_state \<Rightarrow> cam_state" where
  "button_click s = (if isUploading s then s else handleButtonClick s)"

definition onFileUpload :: "media_file list \<Rightarrow> cam_state \<Rightarrow> cam_state" where
  "onFileUpload files s =
     (case files of
        [] \<Rightarrow> s
      | f # _ \<Rightarrow>
          s\<lparr>isUploading := True,
            uploadStatus := ''Uploading to secure server...'',
            requests := PostUpload f # requests s,
            uploads := uploads s @ [mount s]\<rparr>)"

definition file_change :: "media_file list \<Rightarrow> cam_state \<Rightarrow> cam_state" where
  "file_change files s =
     (if picker_open s then onFileUpload files (s\<lparr>picker_open := False\<rparr>) else s)"

definition picker_cancel :: "cam_state \<Rightarrow> cam_state" where
  "picker_cancel s = s\<lparr>picker_open := False\<rparr>"

text \<open>
  The two continuations of \<open>await uploadMedia(file)\<close>.  The state setters of an instance
  that is no longer mounted change nothing; \<open>setTimeout\<close> is set all the same.
\<close>

definition upload_resolved :: "nat \<Rightarrow> cam_state \<Rightarrow> cam_state" where
  "upload_resolved owner s =
     (if owner \<in> set (uploads s) then
        (if owner = mount s
         then s\<lparr>uploadStatus := ''Finalizing AI initialization...'',
                uploads := remove1 owner (uploads s),
                reload_timers := reload_timers s @ [2000]\<rparr>
         else s\<lparr>uploads := remove1 owner (uploads s),
                reload_timers := reload_timers s @ [2000]\<rparr>)
      else s)"

definition upload_rejected :: "nat \<Rightarrow> cam_state \<Rightarrow> cam_state" where
  "upload_rejected owner s =
     (if owner \<in> set (uploads s) then
        (if owner = mount s
         then s\<lparr>uploadStatus := ''Error during upload.'',
                isUploading := False,
                uploads := remove1 owner (uploads s)\<rparr>
         else s\<lparr>uploads := remove1 owner (uploads s)\<rparr>)
      else s)"

definition timer_fired :: "cam_state \<Rightarrow> cam_state" where
  "timer_fired s = (if reload_timers s = [] then s else page_reload s)"

definition handleSwitch :: "string \<Rightarrow> cam_state \<Rightarrow> cam_state" where
  "handleSwitch src s =
     s\<lparr>requests := PostSwitch src # requests s, switches := switches s @ [src]\<rparr>"

definition switch_click :: "string \<Rightarrow> cam_state \<Rightarrow> cam_state" where
  "switch_click src s = (if src \<in> set (map source presets) then handleSwitch src s else s)"

definition switch_resolved :: "string \<Rightarrow> cam_state \<Rightarrow> cam_state" where
  "switch_resolved src s =
     (if src \<in> set (switches s) then
        page_reload
          (s\<lparr>alerts := (''Switched to '' @ src @ ''. Stream will restart shortly.'') # alerts s\<rparr>)
      else s)"

definition switch_rejected :: "string \<Rightarrow> cam_state \<Rightarrow> cam_state" where
  "switch_rejected src s =
     (if src \<in> set (switches s) then
        s\<lparr>switches := remove1 src (switches s),
          alerts := ''Failed to switch camera.'' # alerts s\<rparr>
      else s)"

datatype cam_event =
    ButtonClick
  | FileChange "media_file list"
  | PickerCancel
  | UploadResolved nat
  | UploadRejected nat
  | TimerFired
  | SwitchClick string
  | SwitchResolved string
  | SwitchRejected string
  | Remount

fun cam_step :: "cam_state \<Rightarrow> cam_event \<Rightarrow> cam_state" where
  "cam_step s ButtonClick = button_click s"
| "cam_step s (FileChange files) = file_change files s"
| "cam_step s PickerCancel = picker_cancel s"
| "cam_step s (UploadResolved owner) = upload_resolved owner s"
| "cam_step s (UploadRejected owner) = upload_rejected owner s"
| "cam_step s TimerFired = timer_fired s"
| "cam_step s (SwitchClick src) = switch_click src s"
| "cam_step s (SwitchResolved src) = switch_resolved src s"
| "cam_step s (SwitchRejected src) = switch_rejected src s"
| "cam_step s Remount = remount s"

definition cam_run :: "cam_state \<Rightarrow> cam_event list \<Rightarrow> cam_state" where
  "cam_run s evs = foldl cam_step s evs"

text \<open>
  The status of the upload task as the two cells show it: while \<open>isUploading\<close> is set the
  task is uploading, or finalizing once the acknowledgement text is shown; otherwise it
  is idle, and \<open>Error\<close> is the idle state that shows the failure text.
\<close>

datatype upload_status = Idle | Uploading | Finalizing | Error

definition upload_status :: "cam_state \<Rightarrow> upload_status" where
  "upload_status s =
     (if isUploading s then
        (if uploadStatus s = ''Finalizing AI initialization...'' then Finalizing else Uploading)
      else
        (if uploadStatus s = ''Error during upload.'' then Error else Idle))"

definition upload_transition :: "upload_status \<Rightarrow> upload_status \<Rightarrow> bool" where
  "upload_transition a b =
     ((a, b) \<in> set [(Idle, Uploading), (Error, Uploading), (Uploading, Finalizing),
                     (Uploading, Error), (Finalizing, Idle)])"

text \<open>
  Events that discard the cells of the mounted instance: a page reload (by the timer set
  after an acknowledged upload, or after a camera switch) and a remount.
\<close>

fun is_teardown :: "cam_event \<Rightarrow> bool" where
  "is_teardown TimerFired = True"
| "is_teardown (SwitchResolved src) = True"
| "is_teardown Remount = True"
| "is_teardown _ = False"

text \<open>
  An invariant of all runs: a file chooser is open only while \<open>isUploading\<close> is false; no
  pending upload belongs to a later instance than the mounted one; the mounted instance
  has its own upload pending exactly while it shows the uploading text; and while
  \<open>isUploading\<close> is set, one of the two progress texts is shown, the second one only with
  a reload timer pending.
\<close>

definition cam_inv :: "cam_state \<Rightarrow> bool" where
  "cam_inv s \<longleftrightarrow>
     (picker_open s \<longrightarrow> \<not> isUploading s) \<and>
     (\<forall>owner \<in> set (uploads s). owner \<le> mount s) \<and>
     filter (\<lambda>owner. owner = mount s) (uploads s) =
       (if isUploading s \<and> uploadStatus s = ''Uploading to secure server...''
        then [mount s] else []) \<and>
     (isUploading s \<longrightarrow>
        uploadStatus s = ''Uploading to secure server...'' \<or>
        uploadStatus s = ''Finalizing AI initialization...'' \<and> reload_timers s \<noteq> [])"

text \<open>
  \<open>no_orphans\<close>: every pending upload was started by the mounted instance.
  \<open>remount_when_settled\<close>: in a run from a state, every remount happens while no upload
  is pending.
\<close>

definition no_orphans :: "cam_state \<Rightarrow> bool" where
  "no_orphans s \<longleftrightarrow> (\<forall>owner \<in> set (uploads s). owner = mount s)"

fun remount_when_settled :: "cam_state \<Rightarrow> cam_event list \<Rightarrow> bool" where
  "remount_when_settled s [] = True"
| "remount_when_settled s (ev # evs) =
     ((ev = Remount \<longrightarrow> uploads s = []) \<and> remount_when_settled (cam_step s ev) evs)"


section \<open>ViolationArchive: evidence review\<close>

record violation =
  v_type :: string
  v_id :: int
  v_time :: string
  filename :: string

record archive_state =
  violations :: "violation list"
  selectedVideo :: "violation option"
  archive_loading :: bool

definition API_BASE :: string where
  "API_BASE = ''http://localhost:8005''"

definition getViolationVideoUrl :: "string \<Rightarrow> string" where
  "getViolationVideoUrl fname = API_BASE @ ''/video/violation/'' @ fname"

definition setSelectedVideo :: "violation option \<Rightarrow> archive_state \<Rightarrow> archive_state" where
  "setSelectedVideo v s = s\<lparr>selectedVideo := v\<rparr>"

text \<open>
  A "Review Evidence" button exists for each listed violation once the listing is
  loaded; the close button exists while the modal is rendered.
\<close>

definition review_click :: "violation \<Rightarrow> archive_state \<Rightarrow> archive_state" where
  "review_click v s =
     (if \<not> archive_loading s \<and> v \<in> set (violations s) then setSelectedVideo (Some v) s
      else s)"

definition close_click :: "archive_state \<Rightarrow> archive_state" where
  "close_click s = (if selectedVideo s = None then s else setSelectedVideo None s)"

text \<open>The \<open>src\<close> attributes of the video elements that the component renders.\<close>

definition video_elements :: "archive_state \<Rightarrow> string list" where
  "video_elements s =
     (case selectedVideo s of
        None \<Rightarrow> []
      | Some v \<Rightarrow> [getViolationVideoUrl (filename v)])"


section \<open>LiveMonitor: the activity feed\<close>

text \<open>
  Arrays are objects with identity: \<open>Array.prototype.reverse\<close> reverses its receiver in
  place, and \<open>Array.prototype.slice()\<close> allocates a new array with the same elements.
  The store is the list of all arrays, an array's reference is its position, and a new
  array is put at the end.
\<close>

type_synonym 'a store = "'a list list"

definition slice :: "'a store \<Rightarrow> nat \<Rightarrow> 'a store \<times> nat" where
  "slice st a = (st @ [st ! a], length st)"

definition reverse :: "'a store \<Rightarrow> nat \<Rightarrow> 'a store \<times> nat" where
  "reverse st a = (st[a := rev (st ! a)], a)"

fun split_on :: "char \<Rightarrow> string \<Rightarrow> string list" where
  "split_on c [] = [[]]"
| "split_on c (x # xs) =
     (if x = c then [] # split_on c xs
      else (case split_on c xs of [] \<Rightarrow> [[x]] | y # ys \<Rightarrow> (x # y) # ys))"

record feed_card =
  card_key :: nat
  card_type :: string
  card_time :: "string option"
  card_vehicle :: int

definition feed_card_of :: "nat \<Rightarrow> violation_entry \<Rightarrow> feed_card" where
  "feed_card_of i v =
     \<lparr>card_key = i, card_type = vtype v,
      card_time =
        (let parts = split_on (CHR ''_'') (timestamp v)
         in if 1 < length parts then Some (parts ! 1) else None),
      card_vehicle = tracker_id v\<rparr>"

datatype feed_view = Scanning | Cards "feed_card list"

text \<open>
  The feed of \<open>LiveMonitor\<close>, given the store and the reference held in
  \<open>stats.recent_violations\<close>; it returns the store after rendering.
\<close>

definition activity_feed :: "violation_entry store \<Rightarrow> nat \<Rightarrow> violation_entry store \<times> feed_view" where
  "activity_feed st a =
     (if length (st ! a) = 0 then (st, Scanning)
      else
        (let (st1, c) = slice st a;
             (st2, r) = reverse st1 c
         in (st2, Cards (map (\<lambda>(i, v). feed_card_of i v) (enumerate 0 (st2 ! r))))))"


section \<open>Runs used as examples\<close>

definition admin_principal :: principal where
  "admin_principal = \<lparr>email = Some ''admin@co.com''\<rparr>"

definition op_principal :: principal where
  "op_principal = \<lparr>email = Some ''op@co.com''\<rparr>"

definition login_run :: "app_event list" where
  "login_run = [AuthStateChanged (Some op_principal), TokenResolved 0 ''t1'', EffectRun]"

definition admin_archive_run :: "app_event list" where
  "admin_archive_run =
     [AuthStateChanged (Some admin_principal), TokenResolved 0 ''t1'', EffectRun,
      NavClick Archive]"

definition admin_settings_run :: "app_event list" where
  "admin_settings_run =
     [AuthStateChanged (Some admin_principal), TokenResolved 0 ''t1'', EffectRun,
      NavClick Settings]"

definition relogin_run :: "app_event list" where
  "relogin_run =
     admin_settings_run @
     [AuthStateChanged None, EffectRun, AuthStateChanged (Some op_principal),
      TokenResolved 0 ''t2'', EffectRun]"

definition logout_run :: "app_event list" where
  "logout_run =
     [AuthStateChanged (Some admin_principal), TokenResolved 0 ''t1'', EffectRun, Tick,
      AuthStateChanged None, EffectRun]"

definition sign_out_window_run :: "app_event list" where
  "sign_out_window_run =
     [AuthStateChanged (Some admin_principal), TokenResolved 0 ''t1'', EffectRun,
      AuthStateChanged None, Tick]"

definition double_upload_run :: "cam_event list" where
  "double_upload_run =
     [ButtonClick, FileChange [''a.mp4''], Remount, ButtonClick, FileChange [''b.mp4'']]"

definition retry_after_remount_run :: "cam_event list" where
  "retry_after_remount_run =
     [ButtonClick, FileChange [''a.mp4''], UploadRejected 0, Remount, ButtonClick,
      FileChange [''b.mp4'']]"

definition switch_during_upload_run :: "cam_event list" where
  "switch_during_upload_run =
     [ButtonClick, FileChange [''a.mp4''], SwitchClick ''parking2.mp4'',
      SwitchResolved ''parking2.mp4'']"

definition sample_violation_a :: violation where
  "sample_violation_a =
     \<lparr>v_type = ''speeding'', v_id = 42, v_time = ''12:00:00'', filename = ''a.mp4''\<rparr>"

definition sample_violation_b :: violation where
  "sample_violation_b =
     \<lparr>v_type = ''wrong_way'', v_id = 7, v_time = ''12:05:00'', filename = ''b.mp4''\<rparr>"

definition sample_archive :: archive_state where
  "sample_archive =
     \<lparr>violations = [sample_violation_a, sample_violation_b], selectedVideo = None,
      archive_loading = False\<rparr>"

definition sample_feed :: "violation_entry list" where
  "sample_feed =
     [\<lparr>vtype = ''speeding'', tracker_id = 42, timestamp = ''2024-01-01_12:00:00''\<rparr>,
      \<lparr>vtype = ''wrong_way'', tracker_id = 7, timestamp = ''2024-01-01_12:00:05''\<rparr>]"

definition sample_stats :: stats_snapshot where
  "sample_stats =
     \<lparr>in_count = 5, out_count = 3, total_violations = 1,
      recent_violations =
        [\<lparr>vtype = ''speeding'', tracker_id = 42, timestamp = ''2024-01-01_12:00:00''\<rparr>],
      scene_type = None\<rparr>"


section \<open>Basic facts\<close>

lemmas app_defs =
  auth_changed_def token_resolved_def token_rejected_def tick_def fetch_resolved_def
  fetch_rejected_def nav_click_def setUser_def setAuthToken_def polling_effect_def
  fetchStats_def

lemma str_includes_sublist: "str_includes s t = sublist t s"
  by (induction s) (simp_all add: sublist_Cons_right)

lemma visible_views_Admin: "visible_views Admin = [Live, Archive, Settings]"
  by (simp add: visible_views_def filteredNav_def navItems_def)

lemma visible_views_Operator: "visible_views Operator = [Live, Archive]"
  by (simp add: visible_views_def filteredNav_def navItems_def)

lemma app_run_Nil: "app_run s [] = s"
  by (simp add: app_run_def)

lemma app_run_Cons: "app_run s (ev # evs) = app_run (app_step s ev) evs"
  by (simp add: app_run_def)

lemma app_run_snoc: "app_run s (evs @ [ev]) = app_step (app_run s evs) ev"
  by (simp add: app_run_def)


section \<open>Role derivation\<close>

text \<open>
  Claim C4, as stated: the role is admin if the email contains the marker \<open>admin\<close>, and
  operator otherwise.  The handler lower-cases the email before it searches, so the
  statement fails for an email that holds the marker in capitals: \<open>ADMIN@co.com\<close> does not
  contain \<open>admin\<close>, and its role is admin.
\<close>

theorem role_marker_counterexample:
  "userRole (Some ''ADMIN@co.com'') \<noteq>
     (if sublist ''admin'' ''ADMIN@co.com'' then Admin else Operator)"
  by code_simp

text \<open>
  Claim C4, amended: the role is a function of the email alone; it is admin exactly when
  the lower-cased email contains \<open>admin\<close>, and operator otherwise, also for a principal
  without email.  When a token exchange settles, the role becomes the role of that
  principal.  The principal \<open>admin@co.com\<close> gets the role admin, for which the settings
  view is visible; \<open>op@co.com\<close> gets operator, for which it is not.
\<close>

theorem role_derivation:
  "userRole em =
     (case em of
        None \<Rightarrow> Operator
      | Some e \<Rightarrow> if sublist ''admin'' (toLowerCase e) then Admin else Operator) \<and>
   role (token_resolved n token s) =
     (if n < length (exchanges s) then userRole (email (exchanges s ! n)) else role s) \<and>
   role (app_run app_init [AuthStateChanged (Some admin_principal), TokenResolved 0 token])
     = Admin \<and>
   Settings \<in> set (visible_views Admin) \<and>
   role (app_run app_init [AuthStateChanged (Some op_principal), TokenResolved 0 token])
     = Operator \<and>
   Settings \<notin> set (visible_views Operator)"
proof -
  have a: "userRole (Some ''admin@co.com'') = Admin" by code_simp
  have b: "userRole (Some ''op@co.com'') = Operator" by code_simp
  have 1: "userRole em =
     (case em of
        None \<Rightarrow> Operator
      | Some e \<Rightarrow> if sublist ''admin'' (toLowerCase e) then Admin else Operator)"
    by (simp add: userRole_def str_includes_sublist split: option.split)
  have 2: "role (token_resolved n token s) =
     (if n < length (exchanges s) then userRole (email (exchanges s ! n)) else role s)"
    by (simp add: app_defs)
  have 3: "role (app_run app_init
             [AuthStateChanged (Some admin_principal), TokenResolved 0 token]) = Admin"
    by (simp add: app_run_def app_defs app_init_def admin_principal_def a)
  have 4: "role (app_run app_init
             [AuthStateChanged (Some op_principal), TokenResolved 0 token]) = Operator"
    by (simp add: app_run_def app_defs app_init_def op_principal_def b)
  show ?thesis
    using 1 2 3 4 by (simp add: visible_views_Admin visible_views_Operator)
qed


section \<open>Navigation\<close>

text \<open>
  Claim C1, as stated: after every role transition \<open>activeTab\<close> is an element of the views
  visible to the role, and it is reset to the first visible view when it is not.
  No handler resets \<open>activeTab\<close>: an administrator opens the settings view and signs out,
  an operator signs in on the same page, and the dashboard shows the settings view to the
  operator.
\<close>

theorem active_view_counterexample:
  "role (app_run app_init relogin_run) = Operator \<and>
   activeTab (app_run app_init relogin_run) = Settings \<and>
   activeTab (app_run app_init relogin_run)
     \<notin> set (visible_views (role (app_run app_init relogin_run))) \<and>
   render (app_run app_init relogin_run) = Dashboard Settings"
  by code_simp

lemma activeTab_step:
  "activeTab (app_step s ev) =
     (case ev of
        NavClick v \<Rightarrow>
          if \<not> loading s \<and> user s \<noteq> None \<and> v \<in> set (visible_views (role s)) then v
          else activeTab s
      | _ \<Rightarrow> activeTab s)"
  by (cases ev) (simp_all add: app_defs split: option.split)

lemma activeTab_run:
  "(\<forall>v. NavClick v \<notin> set evs) \<Longrightarrow> activeTab (app_run s evs) = activeTab s"
proof (induction evs rule: rev_induct)
  case Nil
  then show ?case by (simp add: app_run_Nil)
next
  case (snoc ev evs)
  then have "activeTab (app_run s evs) = activeTab s" by simp
  moreover have "activeTab (app_step (app_run s evs) ev) = activeTab (app_run s evs)"
    using activeTab_step [of "app_run s evs" ev] snoc.prems by (cases ev) auto
  ultimately show ?case by (simp add: app_run_snoc)
qed

text \<open>
  Claim C1, amended: in every state, \<open>activeTab\<close> changes only by a click on a navigation
  button, which exists only for a view visible to the current role; every other event, a
  role transition included, leaves \<open>activeTab\<close> as it is, whether or not the view is
  visible to the new role, and so does every run without a click: there is no reset.
  Hence \<open>activeTab\<close> stays among the visible views over every step after which the view
  it had is visible to the role.  The first visible view is the live view for either role.
\<close>

theorem active_view_selection:
  "activeTab (app_step s ev) =
     (case ev of
        NavClick v \<Rightarrow>
          if \<not> loading s \<and> user s \<noteq> None \<and> v \<in> set (visible_views (role s)) then v
          else activeTab s
      | _ \<Rightarrow> activeTab s) \<and>
   ((\<forall>v. NavClick v \<notin> set evs) \<longrightarrow> activeTab (app_run s evs) = activeTab s) \<and>
   (activeTab s \<in> set (visible_views (role s)) \<longrightarrow>
    activeTab s \<in> set (visible_views (role (app_step s ev))) \<longrightarrow>
    activeTab (app_step s ev) \<in> set (visible_views (role (app_step s ev)))) \<and>
   hd (visible_views (role s)) = Live"
proof -
  have dflt: "hd (visible_views (role s)) = Live"
    by (cases "role s") (simp_all add: visible_views_Admin visible_views_Operator)
  have vis: "activeTab (app_step s ev) \<in> set (visible_views (role (app_step s ev)))"
    if a1: "activeTab s \<in> set (visible_views (role s))"
      and a2: "activeTab s \<in> set (visible_views (role (app_step s ev)))"
  proof (cases ev)
    case (NavClick v)
    then show ?thesis using a1 by (simp add: nav_click_def)
  next
    case (AuthStateChanged cu)
    then show ?thesis using a2 activeTab_step [of s ev] by simp
  next
    case (TokenResolved n t)
    then show ?thesis using a2 activeTab_step [of s ev] by simp
  next
    case (TokenRejected n)
    then show ?thesis using a2 activeTab_step [of s ev] by simp
  next
    case Tick
    then show ?thesis using a2 activeTab_step [of s ev] by simp
  next
    case (FetchResolved d)
    then show ?thesis using a2 activeTab_step [of s ev] by simp
  next
    case FetchRejected
    then show ?thesis using a2 activeTab_step [of s ev] by simp
  next
    case EffectRun
    then show ?thesis using a2 activeTab_step [of s ev] by simp
  qed
  show ?thesis using activeTab_step [of s ev] activeTab_run [of evs s] vis dflt by blast
qed

theorem active_view_selection_witness:
  "role (app_run app_init admin_archive_run) = Admin \<and>
   role (app_step (app_run app_init admin_archive_run) (AuthStateChanged None)) = Operator \<and>
   activeTab (app_step (app_run app_init admin_archive_run) (AuthStateChanged None))
     = Archive \<and>
   activeTab (app_step (app_run app_init admin_archive_run) (AuthStateChanged None))
     \<in> set (visible_views
          (role (app_step (app_run app_init admin_archive_run) (AuthStateChanged None)))) \<and>
   role (app_step (app_run app_init admin_settings_run) (AuthStateChanged None)) = Operator \<and>
   activeTab (app_step (app_run app_init admin_settings_run) (AuthStateChanged None))
     = Settings"
proof -
  have r1: "role (app_run app_init admin_archive_run) = Admin" by code_simp
  have t1: "activeTab (app_run app_init admin_archive_run) = Archive" by code_simp
  have r1': "role (app_step (app_run app_init admin_archive_run) (AuthStateChanged None))
               = Operator"
    by code_simp
  have r2': "role (app_step (app_run app_init admin_settings_run) (AuthStateChanged None))
               = Operator"
    by code_simp
  have t2: "activeTab (app_run app_init admin_settings_run) = Settings" by code_simp
  have a1: "activeTab (app_run app_init admin_archive_run)
              \<in> set (visible_views (role (app_run app_init admin_archive_run)))"
    using r1 t1 by (simp add: visible_views_Admin)
  have a2: "activeTab (app_run app_init admin_archive_run)
              \<in> set (visible_views
                   (role (app_step (app_run app_init admin_archive_run)
                      (AuthStateChanged None))))"
    using r1' t1 by (simp add: visible_views_Operator)
  note th1 = active_view_selection
    [of "app_run app_init admin_archive_run" "AuthStateChanged None" "[]"]
  note th2 = active_view_selection
    [of "app_run app_init admin_settings_run" "AuthStateChanged None" "[]"]
  from th1 a1 a2 have v: "activeTab (app_step (app_run app_init admin_archive_run)
       (AuthStateChanged None))
     \<in> set (visible_views
          (role (app_step (app_run app_init admin_archive_run) (AuthStateChanged None))))"
    by blast
  from th1 t1 have k1: "activeTab (app_step (app_run app_init admin_archive_run)
       (AuthStateChanged None)) = Archive"
    by simp
  from th2 t2 have k2: "activeTab (app_step (app_run app_init admin_settings_run)
       (AuthStateChanged None)) = Settings"
    by simp
  show ?thesis using r1 r1' r2' v k1 k2 by blast
qed


section \<open>Polling\<close>

text \<open>
  Claim C2, as stated: once the polling loop is stopped, no update of the snapshot is
  applied, neither from a later fetch nor from a fetch in flight.  The cleanup of the
  effect only clears the timer: a user signs in, one fetch is issued, the session is
  lost (no user is left, the cleanup has cleared the timer), and the response that
  arrives afterwards replaces the snapshot.
\<close>

theorem stale_response_counterexample:
  "interval (app_run app_init logout_run) = None \<and>
   user (app_run app_init logout_run) = None \<and>
   stats (app_run app_init logout_run) = initial_stats \<and>
   stats (app_step (app_run app_init logout_run) (FetchResolved sample_stats))
     = sample_stats \<and>
   sample_stats \<noteq> initial_stats"
  by code_simp

lemma stopped_step:
  assumes "interval s = None" and "user s = None" and "\<not> is_token_resolved ev"
  shows "interval (app_step s ev) = None"
    and "user (app_step s ev) = None"
    and "filter is_get_stats (api_log (app_step s ev)) = filter is_get_stats (api_log s)"
    and "fetches (app_step s ev) \<le> fetches s"
    and "fetches s = 0 \<Longrightarrow> stats (app_step s ev) = stats s"
  using assms by (cases ev; simp add: app_defs split: option.split)+

text \<open>
  Claim C2, amended: once the polling loop is stopped by the loss of the session (no user
  is set and the timer is cleared), and until a new session is established, the timer
  stays cleared and no further stats request is issued; the number of fetches in flight
  never grows, and when none is in flight the snapshot never changes.  A response to a
  fetch that was in flight when the loop stopped is still applied when it arrives.
\<close>

theorem polling_stopped:
  assumes "interval s = None" and "user s = None"
    and "\<forall>ev \<in> set evs. \<not> is_token_resolved ev"
  shows "interval (app_run s evs) = None \<and>
         filter is_get_stats (api_log (app_run s evs)) = filter is_get_stats (api_log s) \<and>
         fetches (app_run s evs) \<le> fetches s \<and>
         (fetches s = 0 \<longrightarrow> stats (app_run s evs) = stats s) \<and>
         (0 < fetches s \<longrightarrow> stats (app_step s (FetchResolved d)) = d)"
proof -
  have run: "interval (app_run s evs) = None \<and>
         filter is_get_stats (api_log (app_run s evs)) = filter is_get_stats (api_log s) \<and>
         fetches (app_run s evs) \<le> fetches s \<and>
         (fetches s = 0 \<longrightarrow> stats (app_run s evs) = stats s)"
    using assms
  proof (induction evs arbitrary: s)
    case Nil
    then show ?case by (simp add: app_run_Nil)
  next
    case (Cons ev evs)
    have ne: "\<not> is_token_resolved ev" using Cons.prems(3) by simp
    note st = stopped_step [OF Cons.prems(1) Cons.prems(2) ne]
    have rest: "\<forall>e \<in> set evs. \<not> is_token_resolved e" using Cons.prems(3) by simp
    from Cons.IH [OF st(1) st(2) rest] st(3) st(4) st(5) show ?case
      by (auto simp add: app_run_Cons)
  qed
  have "0 < fetches s \<longrightarrow> stats (app_step s (FetchResolved d)) = d"
    by (simp add: fetch_resolved_def)
  with run show ?thesis by blast
qed

theorem polling_stopped_witness:
  "interval (app_run app_init logout_run) = None \<and>
   user (app_run app_init logout_run) = None \<and>
   fetches (app_run app_init logout_run) = 1 \<and>
   interval (app_run (app_run app_init logout_run) [Tick, EffectRun, FetchRejected, Tick])
     = None \<and>
   fetches (app_run (app_run app_init logout_run) [Tick, EffectRun, FetchRejected, Tick])
     \<le> fetches (app_run app_init logout_run)"
proof -
  have 1: "interval (app_run app_init logout_run) = None" by code_simp
  have 2: "user (app_run app_init logout_run) = None" by code_simp
  have 3: "\<forall>ev \<in> set [Tick, EffectRun, FetchRejected, Tick]. \<not> is_token_resolved ev"
    by simp
  have 4: "fetches (app_run app_init logout_run) = 1" by code_simp
  show ?thesis using 1 2 4 polling_stopped [OF 1 2 3] by blast
qed

lemma poll_step:
  assumes "interval s = Some 1000" and "is_poll_event ev"
  shows "interval (app_step s ev) = Some 1000"
    and "auth_header (app_step s ev) = auth_header s"
    and "filter is_get_stats (api_log (app_step s ev)) =
           (if ev = Tick then [GetStats (auth_header s)] else []) @
           filter is_get_stats (api_log s)"
    and "is_fetch_failure ev \<Longrightarrow> stats (app_step s ev) = stats s"
  using assms by (cases ev; simp add: app_defs)+

text \<open>
  Claim C5: while the polling timer runs, no sequence of ticks and fetch outcomes stops
  it or changes its period of 1000 ms, and every tick issues exactly one stats request,
  whatever failed before (no backoff).  A failed fetch writes a line to the console,
  leaves the snapshot as it was, and the next tick issues the next request; a run of
  ticks and failures alone leaves the snapshot unchanged.
\<close>

theorem fetch_failure_keeps_polling:
  assumes "interval s = Some 1000" and "\<forall>ev \<in> set evs. is_poll_event ev"
  shows "interval (app_run s evs) = Some 1000 \<and>
         filter is_get_stats (api_log (app_run s evs)) =
           replicate (count_list evs Tick) (GetStats (auth_header s)) @
           filter is_get_stats (api_log s) \<and>
         ((\<forall>ev \<in> set evs. is_fetch_failure ev) \<longrightarrow> stats (app_run s evs) = stats s) \<and>
         (0 < fetches s \<longrightarrow>
            stats (app_step s FetchRejected) = stats s \<and>
            console (app_step s FetchRejected) = ''Failed to fetch stats'' # console s \<and>
            api_log (app_step (app_step s FetchRejected) Tick) =
              GetStats (auth_header s) # api_log s)"
proof -
  have run: "interval (app_run s evs) = Some 1000 \<and>
         filter is_get_stats (api_log (app_run s evs)) =
           replicate (count_list evs Tick) (GetStats (auth_header s)) @
           filter is_get_stats (api_log s) \<and>
         ((\<forall>ev \<in> set evs. is_fetch_failure ev) \<longrightarrow> stats (app_run s evs) = stats s)"
    using assms
  proof (induction evs arbitrary: s)
    case Nil
    then show ?case by (simp add: app_run_Nil)
  next
    case (Cons ev evs)
    have pe: "is_poll_event ev" using Cons.prems(2) by simp
    note st = poll_step [OF Cons.prems(1) pe]
    have rest: "\<forall>e \<in> set evs. is_poll_event e" using Cons.prems(2) by simp
    from Cons.IH [OF st(1) rest] st(2) st(3) st(4) show ?case
      by (auto simp add: app_run_Cons replicate_app_Cons_same)
  qed
  have one: "0 < fetches s \<longrightarrow>
            stats (app_step s FetchRejected) = stats s \<and>
            console (app_step s FetchRejected) = ''Failed to fetch stats'' # console s \<and>
            api_log (app_step (app_step s FetchRejected) Tick) =
              GetStats (auth_header s) # api_log s"
    using assms(1) by (simp add: app_defs)
  from run one show ?thesis by blast
qed

theorem fetch_failure_keeps_polling_witness:
  "interval (app_run app_init login_run) = Some 1000 \<and>
   interval (app_run (app_run app_init login_run)
      [Tick, FetchRejected, Tick, FetchRejected, Tick]) = Some 1000 \<and>
   filter is_get_stats (api_log (app_run (app_run app_init login_run)
      [Tick, FetchRejected, Tick, FetchRejected, Tick])) =
     [GetStats (Some ''Bearer t1''), GetStats (Some ''Bearer t1''),
      GetStats (Some ''Bearer t1'')]"
proof -
  have 1: "interval (app_run app_init login_run) = Some 1000"
    by code_simp
  have 2: "\<forall>ev \<in> set [Tick, FetchRejected, Tick, FetchRejected, Tick]. is_poll_event ev"
    by simp
  have 3: "auth_header (app_run app_init login_run) = Some ''Bearer t1''" by code_simp
  have 4: "filter is_get_stats (api_log (app_run app_init login_run)) = []" by code_simp
  have 5: "count_list [Tick, FetchRejected, Tick, FetchRejected, Tick] Tick = 3" by simp
  have 6: "replicate 3 (GetStats (Some ''Bearer t1'')) =
             [GetStats (Some ''Bearer t1''), GetStats (Some ''Bearer t1''),
              GetStats (Some ''Bearer t1'')]"
    by (simp add: numeral_3_eq_3)
  show ?thesis using 1 fetch_failure_keeps_polling [OF 1 2] 3 4 5 6 by simp
qed

lemma stats_frame:
  "stats (app_step s ev) = stats s \<or> ev = FetchResolved (stats (app_step s ev))"
  by (cases ev) (simp_all add: app_defs split: option.split)

lemma stats_of_run:
  "stats (app_run s evs) = stats s \<or> FetchResolved (stats (app_run s evs)) \<in> set evs"
proof (induction evs rule: rev_induct)
  case Nil
  then show ?case by (simp add: app_run_Nil)
next
  case (snoc ev evs)
  from stats_frame [of "app_run s evs" ev] snoc.IH show ?case
    by (auto simp add: app_run_snoc)
qed

lemma resolved_run:
  "ds \<noteq> [] \<Longrightarrow> length ds \<le> fetches s \<Longrightarrow>
     stats (app_run s (map FetchResolved ds)) = last ds \<and>
     fetches (app_run s (map FetchResolved ds)) = fetches s - length ds"
proof (induction ds rule: rev_induct)
  case Nil
  then show ?case by simp
next
  case (snoc d ds)
  show ?case
  proof (cases "ds = []")
    case True
    then show ?thesis using snoc.prems by (simp add: app_run_def fetch_resolved_def)
  next
    case False
    with snoc have "fetches (app_run s (map FetchResolved ds)) = fetches s - length ds"
      by simp
    then show ?thesis using snoc.prems
      by (simp add: app_run_snoc fetch_resolved_def)
  qed
qed

text \<open>
  Claim C6: after any sequence of successful completions of fetches in flight, the
  snapshot is the last response, whole.  Over any run of events the snapshot is either
  the one before the run or, as a whole, one of the responses of the run: no event builds
  a snapshot from parts of two.
\<close>

theorem snapshot_replaced_wholesale:
  assumes "ds \<noteq> []" and "length ds \<le> fetches s"
  shows "stats (app_run s (map FetchResolved ds)) = last ds \<and>
         (stats (app_run s evs) = stats s \<or>
          FetchResolved (stats (app_run s evs)) \<in> set evs)"
  using resolved_run [OF assms] stats_of_run by blast

theorem snapshot_replaced_wholesale_witness:
  "stats (app_run (app_run app_init (login_run @ [Tick, Tick]))
      (map FetchResolved [initial_stats, sample_stats])) = sample_stats"
proof -
  have 1: "[initial_stats, sample_stats] \<noteq> []" by simp
  have 2: "length [initial_stats, sample_stats]
             \<le> fetches (app_run app_init (login_run @ [Tick, Tick]))"
    by code_simp
  show ?thesis using snapshot_replaced_wholesale [OF 1 2] by simp
qed


section \<open>Credential install before fetch\<close>

lemma has_install_token: "session_token log \<noteq> None \<Longrightarrow> has_install log"
  by (induction log rule: session_token.induct) simp_all







text \<open>
  The sign-out handler deletes the header at once, and the timer is cleared only when the
  effect runs: a timer callback in between sends a stats request without a header.  That
  request, too, comes after the install of the session's token.
\<close>

lemma sign_out_window:
  "interval (app_run app_init sign_out_window_run) = Some 1000 \<and>
   api_log (app_run app_init sign_out_window_run) =
     [GetStats None, SetAuthToken None, SetAuthToken (Some ''t1'')] \<and>
   install_before_fetch (api_log (app_run app_init sign_out_window_run))"
  by code_simp




section \<open>Upload\<close>

lemmas cam_defs =
  button_click_def handleButtonClick_def file_change_def onFileUpload_def picker_cancel_def
  upload_resolved_def upload_rejected_def timer_fired_def switch_click_def handleSwitch_def
  switch_resolved_def switch_rejected_def remount_def page_reload_def

lemma cam_run_Nil: "cam_run s [] = s"
  by (simp add: cam_run_def)

lemma cam_run_Cons: "cam_run s (ev # evs) = cam_run (cam_step s ev) evs"
  by (simp add: cam_run_def)

lemma cam_run_snoc: "cam_run s (evs @ [ev]) = cam_step (cam_run s evs) ev"
  by (simp add: cam_run_def)

lemma filter_later_owner:
  "\<forall>owner \<in> set xs. owner \<le> m \<Longrightarrow> filter (\<lambda>owner. owner = Suc m) xs = []"
  by (induction xs) auto

lemma cam_inv_init: "cam_inv cam_init"
  by (simp add: cam_inv_def cam_init_def)

lemma cam_inv_step: "cam_inv s \<Longrightarrow> cam_inv (cam_step s ev)"
proof (cases ev)
  case Remount
  assume "cam_inv s"
  then show ?thesis using Remount
    by (auto simp add: cam_inv_def remount_def filter_later_owner)
next
  case (UploadResolved owner)
  assume "cam_inv s"
  then show ?thesis using UploadResolved
    by (auto simp add: cam_inv_def upload_resolved_def filter_remove1
      dest: notin_set_remove1 split: if_splits)
next
  case (UploadRejected owner)
  assume "cam_inv s"
  then show ?thesis using UploadRejected
    by (auto simp add: cam_inv_def upload_rejected_def filter_remove1
      dest: notin_set_remove1 split: if_splits)
qed (auto simp add: cam_inv_def cam_defs split: if_splits list.splits)

lemma cam_inv_run: "cam_inv (cam_run cam_init evs)"
proof (induction evs rule: rev_induct)
  case Nil
  then show ?case by (simp add: cam_run_Nil cam_inv_init)
next
  case (snoc ev evs)
  then show ?case by (simp add: cam_run_snoc cam_inv_step)
qed

lemma own_upload_pending:
  assumes "cam_inv s"
  shows "mount s \<in> set (uploads s) \<longleftrightarrow>
           isUploading s \<and> uploadStatus s = ''Uploading to secure server...''"
proof -
  have "mount s \<in> set (uploads s) \<longleftrightarrow>
          filter (\<lambda>owner. owner = mount s) (uploads s) \<noteq> []"
    by (simp add: filter_empty_conv)
  with assms show ?thesis by (auto simp add: cam_inv_def split: if_splits)
qed

lemma remove1_all_own:
  "\<forall>owner \<in> set xs. owner = m \<Longrightarrow> \<forall>owner \<in> set (remove1 x xs). owner = m"
  by (induction xs) auto

lemma no_orphans_step:
  assumes "no_orphans s" and "ev = Remount \<longrightarrow> uploads s = []"
  shows "no_orphans (cam_step s ev)"
proof (cases ev)
  case (UploadResolved owner)
  then show ?thesis using assms(1) remove1_all_own [of "uploads s" "mount s" owner]
    by (auto simp add: no_orphans_def upload_resolved_def)
next
  case (UploadRejected owner)
  then show ?thesis using assms(1) remove1_all_own [of "uploads s" "mount s" owner]
    by (auto simp add: no_orphans_def upload_rejected_def)
qed (use assms in \<open>auto simp add: no_orphans_def cam_defs split: if_splits list.splits\<close>)

lemma no_orphans_run:
  "no_orphans s \<Longrightarrow> remount_when_settled s evs \<Longrightarrow> no_orphans (cam_run s evs)"
proof (induction evs arbitrary: s)
  case Nil
  then show ?case by (simp add: cam_run_Nil)
next
  case (Cons ev evs)
  from Cons.prems have "no_orphans (cam_step s ev)"
    by (simp add: no_orphans_step)
  with Cons show ?case by (simp add: cam_run_Cons)
qed

lemma own_uploads_le_1:
  assumes "cam_inv s"
  shows "length (filter (\<lambda>owner. owner = mount s) (uploads s)) \<le> 1"
  using assms by (simp add: cam_inv_def)

lemma settled_of_inv:
  assumes "cam_inv s" and "no_orphans s"
  shows "length (uploads s) \<le> 1" and "uploads s \<noteq> [] \<longrightarrow> isUploading s"
proof -
  have own: "filter (\<lambda>owner. owner = mount s) (uploads s) = uploads s"
    using assms(2) by (simp add: no_orphans_def filter_id_conv)
  from own own_uploads_le_1 [OF assms(1)] show "length (uploads s) \<le> 1" by simp
  from own assms(1) show "uploads s \<noteq> [] \<longrightarrow> isUploading s"
    by (auto simp add: cam_inv_def split: if_splits)
qed

lemma gate_of_inv:
  assumes "cam_inv s"
  shows "isUploading s \<longrightarrow> cam_step s ButtonClick = s \<and> cam_step s (FileChange files) = s"
  using assms by (auto simp add: cam_inv_def cam_defs)

text \<open>
  Claim C3, as stated: in every session state at most one upload is in flight, a start
  of an upload being rejected while the task is not idle.  \<open>isUploading\<close> is a cell of the
  mounted \<open>CamSettings\<close> instance: an upload is started, the user leaves the settings view
  and comes back while it is pending, the new instance shows an enabled button, and a
  second upload is sent to the backend while the first is still in flight.
\<close>

theorem double_upload_counterexample:
  "uploads (cam_run cam_init (take 3 double_upload_run)) = [0] \<and>
   uploads (cam_run cam_init double_upload_run) = [0, 1] \<and>
   requests (cam_run cam_init double_upload_run)
     = [PostUpload ''b.mp4'', PostUpload ''a.mp4''] \<and>
   \<not> length (uploads (cam_run cam_init double_upload_run)) \<le> 1"
  by code_simp

text \<open>
  Claim C3, amended: in every state of every run, remounts included, while \<open>isUploading\<close>
  is set (the task is uploading or finalizing) the button is disabled and no file chooser
  is open, so neither a click nor a change event alters the state or sends a request, and
  the mounted instance has at most one upload of its own in flight.  In every run in
  which the settings view is not remounted while an upload is pending, at most one upload
  is in flight at all, and an upload in flight implies \<open>isUploading\<close>.
\<close>

theorem single_upload_in_flight:
  "(isUploading (cam_run cam_init evs) \<longrightarrow>
      cam_step (cam_run cam_init evs) ButtonClick = cam_run cam_init evs \<and>
      cam_step (cam_run cam_init evs) (FileChange files) = cam_run cam_init evs) \<and>
   length (filter (\<lambda>owner. owner = mount (cam_run cam_init evs))
             (uploads (cam_run cam_init evs))) \<le> 1 \<and>
   (remount_when_settled cam_init evs \<longrightarrow>
      length (uploads (cam_run cam_init evs)) \<le> 1 \<and>
      (uploads (cam_run cam_init evs) \<noteq> [] \<longrightarrow> isUploading (cam_run cam_init evs)))"
proof -
  have inv: "cam_inv (cam_run cam_init evs)" by (rule cam_inv_run)
  have init: "no_orphans cam_init" by (simp add: no_orphans_def cam_init_def)
  have orph: "remount_when_settled cam_init evs \<longrightarrow> no_orphans (cam_run cam_init evs)"
    using no_orphans_run [OF init] by blast
  from gate_of_inv [OF inv] own_uploads_le_1 [OF inv] settled_of_inv [OF inv] orph
  show ?thesis by blast
qed

theorem single_upload_in_flight_witness:
  "Remount \<in> set retry_after_remount_run \<and>
   remount_when_settled cam_init retry_after_remount_run \<and>
   isUploading (cam_run cam_init retry_after_remount_run) \<and>
   length (uploads (cam_run cam_init retry_after_remount_run)) \<le> 1 \<and>
   cam_step (cam_run cam_init retry_after_remount_run) ButtonClick =
     cam_run cam_init retry_after_remount_run"
proof -
  have 1: "Remount \<in> set retry_after_remount_run"
    by (simp add: retry_after_remount_run_def)
  have 2: "remount_when_settled cam_init retry_after_remount_run" by code_simp
  have 3: "isUploading (cam_run cam_init retry_after_remount_run)" by code_simp
  show ?thesis
    using 1 2 3 single_upload_in_flight [of retry_after_remount_run] by blast
qed

lemma upload_machine_of_inv:
  assumes "cam_inv s"
  shows "upload_status (cam_step s e) = upload_status s \<or>
         upload_transition (upload_status s) (upload_status (cam_step s e)) \<or>
         is_teardown e \<and> upload_status (cam_step s e) = Idle"
    and "picker_open s \<longrightarrow>
           upload_status (cam_step s (FileChange (f # fs))) = Uploading \<and>
           requests (cam_step s (FileChange (f # fs))) = PostUpload f # requests s"
    and "upload_status s = Uploading \<longrightarrow>
           upload_status (cam_step s (UploadResolved (mount s))) = Finalizing \<and>
           reload_timers (cam_step s (UploadResolved (mount s))) = reload_timers s @ [2000]"
    and "upload_status s = Uploading \<longrightarrow>
           upload_status (cam_step s (UploadRejected (mount s))) = Error \<and>
           uploadStatus (cam_step s (UploadRejected (mount s))) = ''Error during upload.'' \<and>
           \<not> isUploading (cam_step s (UploadRejected (mount s))) \<and>
           mount s \<notin> set (uploads (cam_step s (UploadRejected (mount s)))) \<and>
           picker_open (cam_step (cam_step s (UploadRejected (mount s))) ButtonClick)"
    and "upload_status s = Finalizing \<longrightarrow>
           cam_step s TimerFired = page_reload s \<and>
           upload_status (cam_step s TimerFired) = Idle \<and>
           reloads (cam_step s TimerFired) = Suc (reloads s)"
    and "owner \<noteq> mount s \<longrightarrow>
           uploadStatus (cam_step s (UploadRejected owner)) = uploadStatus s \<and>
           isUploading (cam_step s (UploadRejected owner)) = isUploading s"
proof -
  note own = own_upload_pending [OF assms]
  have texts: "isUploading s \<longrightarrow>
        uploadStatus s = ''Uploading to secure server...'' \<or>
        uploadStatus s = ''Finalizing AI initialization...'' \<and> reload_timers s \<noteq> []"
    and gate: "picker_open s \<longrightarrow> \<not> isUploading s"
    using assms by (simp_all add: cam_inv_def)
  show "upload_status (cam_step s e) = upload_status s \<or>
         upload_transition (upload_status s) (upload_status (cam_step s e)) \<or>
         is_teardown e \<and> upload_status (cam_step s e) = Idle"
    using own gate
    by (cases e)
      (auto simp add: cam_defs upload_status_def upload_transition_def
        split: if_splits list.splits)
  show "picker_open s \<longrightarrow>
           upload_status (cam_step s (FileChange (f # fs))) = Uploading \<and>
           requests (cam_step s (FileChange (f # fs))) = PostUpload f # requests s"
    by (simp add: cam_defs upload_status_def)
  have pending: "upload_status s = Uploading \<longrightarrow> mount s \<in> set (uploads s)"
    using own texts by (auto simp add: upload_status_def split: if_splits)
  show "upload_status s = Uploading \<longrightarrow>
           upload_status (cam_step s (UploadResolved (mount s))) = Finalizing \<and>
           reload_timers (cam_step s (UploadResolved (mount s))) = reload_timers s @ [2000]"
    using pending by (auto simp add: cam_defs upload_status_def split: if_splits)
  have after: "\<not> isUploading (cam_step s (UploadRejected (mount s))) \<longrightarrow>
                 mount s \<notin> set (uploads (cam_step s (UploadRejected (mount s))))"
    using own_upload_pending [OF cam_inv_step [OF assms, of "UploadRejected (mount s)"]]
    by (auto simp add: upload_rejected_def split: if_splits)
  show "upload_status s = Uploading \<longrightarrow>
           upload_status (cam_step s (UploadRejected (mount s))) = Error \<and>
           uploadStatus (cam_step s (UploadRejected (mount s))) = ''Error during upload.'' \<and>
           \<not> isUploading (cam_step s (UploadRejected (mount s))) \<and>
           mount s \<notin> set (uploads (cam_step s (UploadRejected (mount s)))) \<and>
           picker_open (cam_step (cam_step s (UploadRejected (mount s))) ButtonClick)"
    using pending after by (auto simp add: cam_defs upload_status_def split: if_splits)
  show "upload_status s = Finalizing \<longrightarrow>
           cam_step s TimerFired = page_reload s \<and>
           upload_status (cam_step s TimerFired) = Idle \<and>
           reloads (cam_step s TimerFired) = Suc (reloads s)"
    using texts by (auto simp add: cam_defs upload_status_def split: if_splits)
  show "owner \<noteq> mount s \<longrightarrow>
           uploadStatus (cam_step s (UploadRejected owner)) = uploadStatus s \<and>
           isUploading (cam_step s (UploadRejected owner)) = isUploading s"
    by (simp add: upload_rejected_def)
qed

text \<open>
  Claim C7, as stated: the upload task follows exactly the transitions idle to uploading
  to finalizing to idle, or to error on failure.  The page is also reloaded when a camera
  switch succeeds: an upload is pending, a switch is requested and acknowledged, and the
  task goes from uploading to idle, which is none of the transitions of the claim.
\<close>

theorem upload_reload_counterexample:
  "upload_status (cam_run cam_init (take 3 switch_during_upload_run)) = Uploading \<and>
   upload_status (cam_run cam_init switch_during_upload_run) = Idle \<and>
   uploadStatus (cam_run cam_init switch_during_upload_run) = [] \<and>
   \<not> upload_transition Uploading Idle"
  by code_simp

text \<open>
  Claim C7, amended: in every state \<open>s\<close> that a run reaches, remounts and camera switches
  included, an event either keeps the status of the mounted view's upload task, or takes
  one of the transitions idle to uploading, uploading to finalizing, uploading to error,
  finalizing to idle and error to uploading (the retry), or is a teardown of the view's
  cells (a page reload or a remount) that leaves the task idle.  A file submitted from
  the chooser starts the upload with one request; the acknowledgement of the view's own
  upload makes the task finalizing and sets a timer of 2000 ms; in the finalizing state
  the firing of the timer reloads the page, which leaves the task idle; the failure of
  the view's own upload shows the failure text and clears \<open>isUploading\<close> with no upload
  of the view left in flight, so that the button opens the chooser again.  The failure of
  an upload that an earlier instance started changes neither the text nor the flag.
\<close>

theorem upload_state_machine:
  assumes "s = cam_run cam_init evs"
  shows "(upload_status (cam_step s e) = upload_status s \<or>
          upload_transition (upload_status s) (upload_status (cam_step s e)) \<or>
          is_teardown e \<and> upload_status (cam_step s e) = Idle) \<and>
         (picker_open s \<longrightarrow>
            upload_status (cam_step s (FileChange (f # fs))) = Uploading \<and>
            requests (cam_step s (FileChange (f # fs))) = PostUpload f # requests s) \<and>
         (upload_status s = Uploading \<longrightarrow>
            upload_status (cam_step s (UploadResolved (mount s))) = Finalizing \<and>
            reload_timers (cam_step s (UploadResolved (mount s)))
              = reload_timers s @ [2000]) \<and>
         (upload_status s = Uploading \<longrightarrow>
            upload_status (cam_step s (UploadRejected (mount s))) = Error \<and>
            uploadStatus (cam_step s (UploadRejected (mount s))) = ''Error during upload.'' \<and>
            \<not> isUploading (cam_step s (UploadRejected (mount s))) \<and>
            mount s \<notin> set (uploads (cam_step s (UploadRejected (mount s)))) \<and>
            picker_open (cam_step (cam_step s (UploadRejected (mount s))) ButtonClick)) \<and>
         (upload_status s = Finalizing \<longrightarrow>
            cam_step s TimerFired = page_reload s \<and>
            upload_status (cam_step s TimerFired) = Idle \<and>
            reloads (cam_step s TimerFired) = Suc (reloads s)) \<and>
         (owner \<noteq> mount s \<longrightarrow>
            uploadStatus (cam_step s (UploadRejected owner)) = uploadStatus s \<and>
            isUploading (cam_step s (UploadRejected owner)) = isUploading s)"
proof -
  have inv: "cam_inv s" using assms by (simp add: cam_inv_run)
  show ?thesis using upload_machine_of_inv [OF inv] by blast
qed

theorem upload_state_machine_witness:
  "upload_status (cam_run cam_init [ButtonClick, FileChange [''a.mp4'']]) = Uploading \<and>
   upload_status
     (cam_step (cam_run cam_init [ButtonClick, FileChange [''a.mp4'']])
        (UploadResolved (mount (cam_run cam_init [ButtonClick, FileChange [''a.mp4'']]))))
     = Finalizing \<and>
   upload_status
     (cam_step (cam_run cam_init [ButtonClick, FileChange [''a.mp4'']])
        (UploadRejected (mount (cam_run cam_init [ButtonClick, FileChange [''a.mp4'']]))))
     = Error"
proof -
  have 2: "upload_status (cam_run cam_init [ButtonClick, FileChange [''a.mp4'']]) = Uploading"
    by code_simp
  show ?thesis using 2 upload_state_machine [OF refl] by blast
qed


section \<open>Evidence review\<close>

lemmas archive_defs =
  review_click_def close_click_def setSelectedVideo_def video_elements_def

text \<open>
  Claim C8: \<open>selectedVideo\<close> holds at most one violation, and the component renders at
  most one video element.  Opening \<open>b\<close> while \<open>a\<close> is open leaves exactly \<open>b\<close> selected, with
  the one video element of \<open>b\<close>; closing sets \<open>selectedVideo\<close> to null, and no video
  element is rendered any more.
\<close>

theorem single_evidence:
  assumes "\<not> archive_loading s" and "a \<in> set (violations s)" and "b \<in> set (violations s)"
  shows "selectedVideo (review_click b (review_click a s)) = Some b \<and>
         video_elements (review_click b (review_click a s))
           = [getViolationVideoUrl (filename b)] \<and>
         selectedVideo (close_click (review_click a s)) = None \<and>
         video_elements (close_click (review_click a s)) = [] \<and>
         length (video_elements s) \<le> 1"
  using assms by (simp add: archive_defs split: option.split)

theorem single_evidence_witness:
  "selectedVideo
     (review_click sample_violation_b (review_click sample_violation_a sample_archive))
     = Some sample_violation_b \<and>
   video_elements
     (review_click sample_violation_b (review_click sample_violation_a sample_archive))
     = [''http://localhost:8005/video/violation/b.mp4''] \<and>
   video_elements (close_click (review_click sample_violation_a sample_archive)) = []"
proof -
  have 1: "\<not> archive_loading sample_archive"
    by (simp add: sample_archive_def)
  have 2: "sample_violation_a \<in> set (violations sample_archive)"
    by (simp add: sample_archive_def)
  have 3: "sample_violation_b \<in> set (violations sample_archive)"
    by (simp add: sample_archive_def)
  have 4: "getViolationVideoUrl (filename sample_violation_b)
             = ''http://localhost:8005/video/violation/b.mp4''"
    by (simp add: getViolationVideoUrl_def API_BASE_def sample_violation_b_def)
  show ?thesis using single_evidence [OF 1 2 3] 4 by simp
qed


section \<open>Live feed\<close>

lemma reverse_in_place: "a < length st \<Longrightarrow> fst (reverse st a) ! a = rev (st ! a)"
  by (simp add: reverse_def)

text \<open>
  Claim C10: the feed shows the recent violations in reverse order, most recent first,
  and rendering leaves the array of the snapshot, like every array that existed before,
  as it was: the reversal is done on the copy that \<open>slice\<close> allocates.
\<close>

theorem feed_reverses_copy:
  assumes "a < length st"
  shows "fst (activity_feed st a) ! a = st ! a \<and>
         take (length st) (fst (activity_feed st a)) = st \<and>
         snd (activity_feed st a) =
           (if st ! a = [] then Scanning
            else Cards (map (\<lambda>(i, v). feed_card_of i v) (enumerate 0 (rev (st ! a)))))"
  using assms by (simp add: activity_feed_def slice_def reverse_def nth_append)

theorem feed_reverses_copy_witness:
  "fst (activity_feed [sample_feed] 0) ! 0 = sample_feed \<and>
   snd (activity_feed [sample_feed] 0) =
     Cards [\<lparr>card_key = 0, card_type = ''wrong_way'', card_time = Some ''12:00:05'',
             card_vehicle = 7\<rparr>,
            \<lparr>card_key = 1, card_type = ''speeding'', card_time = Some ''12:00:00'',
             card_vehicle = 42\<rparr>]"
proof -
  have 1: "(0::nat) < length [sample_feed]" by simp
  have 2: "map (\<lambda>(i, v). feed_card_of i v) (enumerate 0 (rev sample_feed)) =
     [\<lparr>card_key = 0, card_type = ''wrong_way'', card_time = Some ''12:00:05'',
       card_vehicle = 7\<rparr>,
      \<lparr>card_key = 1, card_type = ''speeding'', card_time = Some ''12:00:00'',
       card_vehicle = 42\<rparr>]"
    by code_simp
  have 3: "sample_feed \<noteq> []" by (simp add: sample_feed_def)
  show ?thesis using feed_reverses_copy [OF 1] 2 3 by simp
qed

end
